theory Spec2Isabelle
  imports Main "HOL-Library.Word"
begin

section \<open>Pointcheval-Sanders signatures over a pairing suite (ps.go)\<close>

text \<open>
  The package is written against the interface \<^verbatim>\<open>pairing.Suite\<close> of the kyber
  library: scalars, the groups G1 and G2, and the pairing into GT.  The interface is
  embedded as a record of operations; the algebra the library promises is stated as
  predicates on such a record (section \<open>Laws of the suite\<close>), never assumed silently.

  Binary encodings are byte strings.  Every Go \<^verbatim>\<open>error\<close> and every index panic is a
  value of \<open>error\<close>.  Random draws (\<^verbatim>\<open>Pick\<close>) are explicit arguments: the value
  drawn is passed in, so a statement for all arguments is a statement for all draws.
  The entries of a key slice are scalars or points, never \<^verbatim>\<open>nil\<close>.
\<close>

subsection \<open>Data\<close>

type_synonym bytes = "8 word list"

datatype error =
    InsufficientRandomness  \<comment> \<open>\<^verbatim>\<open>fmt.Errorf("need minimum two random numbers")\<close>\<close>
  | SuiteError string       \<comment> \<open>an error returned by MarshalBinary / UnmarshalBinary\<close>
  | InvalidSignature        \<comment> \<open>\<^verbatim>\<open>errors.New("ps: invalid signature")\<close>\<close>
  | IndexOutOfRange         \<comment> \<open>the run-time panic of a slice index out of range\<close>

record ('sc, 'g1, 'g2, 'gt) suite =
  sc_new       :: 'sc                          \<comment> \<open>\<^verbatim>\<open>Scalar()\<close>: a fresh scalar\<close>
  sc_add       :: "'sc \<Rightarrow> 'sc \<Rightarrow> 'sc"           \<comment> \<open>\<^verbatim>\<open>Scalar().Add(a, b)\<close>\<close>
  sc_mul       :: "'sc \<Rightarrow> 'sc \<Rightarrow> 'sc"           \<comment> \<open>\<^verbatim>\<open>Scalar().Mul(a, b)\<close>\<close>
  sc_set_bytes :: "bytes \<Rightarrow> 'sc"                \<comment> \<open>\<^verbatim>\<open>Scalar().SetBytes(msg)\<close>\<close>
  sc_marshal   :: "'sc \<Rightarrow> string + bytes"
  sc_unmarshal :: "bytes \<Rightarrow> string + 'sc"
  g1_base      :: 'g1                          \<comment> \<open>the base point, used by \<^verbatim>\<open>Mul(s, nil)\<close>\<close>
  g1_add       :: "'g1 \<Rightarrow> 'g1 \<Rightarrow> 'g1"           \<comment> \<open>\<^verbatim>\<open>G1().Point().Add(a, b)\<close>\<close>
  g1_mul       :: "'sc \<Rightarrow> 'g1 \<Rightarrow> 'g1"           \<comment> \<open>\<^verbatim>\<open>G1().Point().Mul(s, p)\<close>\<close>
  g1_marshal   :: "'g1 \<Rightarrow> string + bytes"
  g1_unmarshal :: "bytes \<Rightarrow> string + 'g1"
  g2_new       :: 'g2                          \<comment> \<open>\<^verbatim>\<open>G2().Point()\<close>: a fresh point\<close>
  g2_base      :: 'g2                          \<comment> \<open>\<^verbatim>\<open>G2().Point().Base()\<close>\<close>
  g2_add       :: "'g2 \<Rightarrow> 'g2 \<Rightarrow> 'g2"
  g2_mul       :: "'sc \<Rightarrow> 'g2 \<Rightarrow> 'g2"
  g2_marshal   :: "'g2 \<Rightarrow> string + bytes"
  g2_unmarshal :: "bytes \<Rightarrow> string + 'g2"
  pair         :: "'g1 \<Rightarrow> 'g2 \<Rightarrow> 'gt"           \<comment> \<open>\<^verbatim>\<open>suite.Pair(p, q)\<close>\<close>

subsection \<open>NewKeyPair\<close>

text \<open>
  The argument \<open>randoms\<close> lists, for each randomness source, the scalar that
  \<^verbatim>\<open>Scalar().Pick(randoms[i])\<close> draws from it.  The two loops append to their
  accumulators as the source does.
\<close>

fun priKeyLoop :: "('sc, 'g1, 'g2, 'gt) suite \<Rightarrow> 'sc list \<Rightarrow> bytes list \<Rightarrow> error + bytes list" where
  "priKeyLoop s [] PriKey = Inr PriKey"
| "priKeyLoop s (r # randoms) PriKey =
     (case sc_marshal s r of
        Inl err \<Rightarrow> Inl (SuiteError err)
      | Inr Pkey \<Rightarrow> priKeyLoop s randoms (PriKey @ [Pkey]))"

fun pubKeyLoop :: "('sc, 'g1, 'g2, 'gt) suite \<Rightarrow> bytes list \<Rightarrow> bytes list \<Rightarrow> error + bytes list" where
  "pubKeyLoop s [] PubKey = Inr PubKey"
| "pubKeyLoop s (b # PriKey) PubKey =
     (case sc_unmarshal s b of
        Inl err \<Rightarrow> Inl (SuiteError err)
      | Inr Pkey \<Rightarrow>
          (case g2_marshal s (g2_mul s Pkey (g2_base s)) of
             Inl err \<Rightarrow> Inl (SuiteError err)
           | Inr binPub \<Rightarrow> pubKeyLoop s PriKey (PubKey @ [binPub])))"

definition NewKeyPair ::
  "('sc, 'g1, 'g2, 'gt) suite \<Rightarrow> 'sc list \<Rightarrow> error + (bytes list \<times> bytes list)" where
  "NewKeyPair s randoms =
     (if length randoms < 2 then Inl InsufficientRandomness
      else case priKeyLoop s randoms [] of
             Inl err \<Rightarrow> Inl err
           | Inr PriKey \<Rightarrow>
               (case pubKeyLoop s PriKey [] of
                  Inl err \<Rightarrow> Inl err
                | Inr PubKey \<Rightarrow> Inr (PriKey, PubKey)))"

subsection \<open>Sign, BatchSign, AggreSign\<close>

text \<open>\<open>h\<close> is the point drawn by \<^verbatim>\<open>G1().Point().Pick(suite.RandomStream())\<close>.\<close>

definition Sign ::
  "('sc, 'g1, 'g2, 'gt) suite \<Rightarrow> 'sc list \<Rightarrow> bytes \<Rightarrow> 'g1 \<Rightarrow> error + bytes list" where
  "Sign s priKey msg h =
     (case g1_marshal s h of
        Inl err \<Rightarrow> Inl (SuiteError err)
      | Inr binH \<Rightarrow>
          if \<not> 1 < length priKey then Inl IndexOutOfRange
          else
            let y = sc_mul s (priKey ! 1) (sc_set_bytes s msg);
                x = sc_add s (priKey ! 0) y;
                hX = g1_mul s x h
            in (case g1_marshal s hX of
                  Inl err \<Rightarrow> Inl (SuiteError err)
                | Inr binHx \<Rightarrow> Inr [binH, binHx]))"

text \<open>The loop of BatchSign: \<open>i\<close> is the index of the first message of the list.\<close>

fun batchSignLoop ::
  "('sc, 'g1, 'g2, 'gt) suite \<Rightarrow> 'sc list \<Rightarrow> nat \<Rightarrow> bytes list \<Rightarrow> 'sc \<Rightarrow> error + 'sc" where
  "batchSignLoop s priKey i [] y = Inr y"
| "batchSignLoop s priKey i (msg # msgs) y =
     (if \<not> i + 1 < length priKey then Inl IndexOutOfRange
      else
        let msgScalar = sc_set_bytes s msg
        in batchSignLoop s priKey (i + 1) msgs
             (sc_add s y (sc_mul s (priKey ! (i + 1)) msgScalar)))"

definition BatchSign ::
  "('sc, 'g1, 'g2, 'gt) suite \<Rightarrow> 'sc list \<Rightarrow> bytes list \<Rightarrow> 'g1 \<Rightarrow> error + bytes list" where
  "BatchSign s priKey msgs h =
     (case g1_marshal s h of
        Inl err \<Rightarrow> Inl (SuiteError err)
      | Inr binH \<Rightarrow>
          (case batchSignLoop s priKey 0 msgs (sc_new s) of
             Inl err \<Rightarrow> Inl err
           | Inr y \<Rightarrow>
               if \<not> 0 < length priKey then Inl IndexOutOfRange
               else
                 let x = sc_add s (priKey ! 0) y;
                     hX = g1_mul s x h
                 in (case g1_marshal s hX of
                       Inl err \<Rightarrow> Inl (SuiteError err)
                     | Inr binHx \<Rightarrow> Inr [binH, binHx])))"

text \<open>\<open>t\<close> is the scalar drawn by \<^verbatim>\<open>G1().Scalar().Pick(random.New())\<close>.\<close>

definition AggreSign ::
  "('sc, 'g1, 'g2, 'gt) suite \<Rightarrow> 'sc list \<Rightarrow> bytes \<Rightarrow> 'sc \<Rightarrow> error + bytes list" where
  "AggreSign s priKey msg t =
     (let sigma1 = g1_mul s t (g1_base s)
      in case g1_marshal s sigma1 of
           Inl err \<Rightarrow> Inl (SuiteError err)
         | Inr binSigma1 \<Rightarrow>
             let msgScalar = sc_set_bytes s msg
             in if \<not> 1 < length priKey then Inl IndexOutOfRange
                else
                  let y = sc_mul s (priKey ! 1) msgScalar;
                      x = sc_add s (priKey ! 0) y;
                      v = sc_mul s x t;
                      sigma2 = g1_mul s v (g1_base s)
                  in (case g1_marshal s sigma2 of
                        Inl err \<Rightarrow> Inl (SuiteError err)
                      | Inr binSigma2 \<Rightarrow> Inr [binSigma1, binSigma2]))"

subsection \<open>Verify, PSBatchVerify\<close>

text \<open>
  Both return a Go \<^verbatim>\<open>error\<close>: \<open>None\<close> is \<^verbatim>\<open>nil\<close>.  \<^verbatim>\<open>left.Equal(right)\<close> is
  equality of the two elements of GT.
\<close>

definition Verify ::
  "('sc, 'g1, 'g2, 'gt) suite \<Rightarrow> 'g2 list \<Rightarrow> bytes \<Rightarrow> bytes list \<Rightarrow> error option" where
  "Verify s pubKey msg S =
     (let msgScalar = sc_set_bytes s msg
      in if \<not> 1 < length pubKey then Some IndexOutOfRange
         else
           let Y = g2_mul s msgScalar (pubKey ! 1);
               X = g2_add s Y (pubKey ! 0)
           in (if \<not> 0 < length S then Some IndexOutOfRange
            else (case g1_unmarshal s (S ! 0) of
                    Inl err \<Rightarrow> Some (SuiteError err)
                  | Inr s1 \<Rightarrow>
                      let left = pair s s1 X
                      in if \<not> 1 < length S then Some IndexOutOfRange
                         else (case g1_unmarshal s (S ! 1) of
                                 Inl err \<Rightarrow> Some (SuiteError err)
                               | Inr s2 \<Rightarrow>
                                   let right = pair s s2 (g2_base s)
                                   in if left \<noteq> right then Some InvalidSignature
                                      else None))))"

text \<open>The loop of PSBatchVerify: \<open>i\<close> is the index of the first message of the list.\<close>

fun batchVerifyLoop ::
  "('sc, 'g1, 'g2, 'gt) suite \<Rightarrow> 'g2 list \<Rightarrow> nat \<Rightarrow> bytes list \<Rightarrow> 'g2 \<Rightarrow> error + 'g2" where
  "batchVerifyLoop s pubKey i [] Y = Inr Y"
| "batchVerifyLoop s pubKey i (msg # msgs) Y =
     (if \<not> i + 1 < length pubKey then Inl IndexOutOfRange
      else
        let msgScalar = sc_set_bytes s msg
        in batchVerifyLoop s pubKey (i + 1) msgs
             (g2_add s Y (g2_mul s msgScalar (pubKey ! (i + 1)))))"

definition PSBatchVerify ::
  "('sc, 'g1, 'g2, 'gt) suite \<Rightarrow> 'g2 list \<Rightarrow> bytes list \<Rightarrow> bytes list \<Rightarrow> error option" where
  "PSBatchVerify s pubKey msgs S =
     (case batchVerifyLoop s pubKey 0 msgs (g2_new s) of
        Inl err \<Rightarrow> Some err
      | Inr Y \<Rightarrow>
          if \<not> 0 < length pubKey then Some IndexOutOfRange
          else
            let X = g2_add s Y (pubKey ! 0)
            in (if \<not> 0 < length S then Some IndexOutOfRange
            else (case g1_unmarshal s (S ! 0) of
                    Inl err \<Rightarrow> Some (SuiteError err)
                  | Inr s1 \<Rightarrow>
                      let left = pair s s1 X
                      in if \<not> 1 < length S then Some IndexOutOfRange
                         else (case g1_unmarshal s (S ! 1) of
                                 Inl err \<Rightarrow> Some (SuiteError err)
                               | Inr s2 \<Rightarrow>
                                   let right = pair s s2 (g2_base s)
                                   in if left \<noteq> right then Some InvalidSignature
                                      else None))))"

subsection \<open>AggregatePSSign\<close>

text \<open>\<open>priKey\<close> is the single scalar of the extending signer, \<open>t\<close> the scalar it draws.\<close>

definition AggregatePSSign ::
  "('sc, 'g1, 'g2, 'gt) suite \<Rightarrow> 'sc \<Rightarrow> bytes list \<Rightarrow> bytes \<Rightarrow> 'sc \<Rightarrow> error + bytes list" where
  "AggregatePSSign s priKey S msg t =
     (if \<not> 0 < length S then Inl IndexOutOfRange
      else (case g1_unmarshal s (S ! 0) of
              Inl err \<Rightarrow> Inl (SuiteError err)
            | Inr s1 \<Rightarrow>
                (case g1_marshal s (g1_mul s t s1) of
                   Inl err \<Rightarrow> Inl (SuiteError err)
                 | Inr binSigma1 \<Rightarrow>
                     let msgScalar = sc_set_bytes s msg;
                         y = sc_mul s priKey msgScalar;
                         sigma_1 = g1_mul s y s1
                     in if \<not> 1 < length S then Inl IndexOutOfRange
                        else (case g1_unmarshal s (S ! 1) of
                                Inl err \<Rightarrow> Inl (SuiteError err)
                              | Inr s2 \<Rightarrow>
                                  let sigma_2 = g1_add s sigma_1 s2
                                  in (case g1_marshal s (g1_mul s t sigma_2) of
                                        Inl err \<Rightarrow> Inl (SuiteError err)
                                      | Inr binSigma2 \<Rightarrow> Inr [binSigma1, binSigma2])))))"

subsection \<open>Laws of the suite\<close>

text \<open>
  What the package takes from the library, one predicate for each fact: scalar addition
  and multiplication commute; each group is a module over the scalars; the fresh G2 point
  and the fresh scalar are the neutral elements; the pairing moves a scalar from one
  argument to the other; an element that is marshalled is read back unchanged.
  Two more are used for tampered signatures only: the pairing is non-degenerate (it
  separates the points of G1 at every G2 point other than the neutral one, and the base
  point of G2 is not neutral), and inverting one bit of the encoding of a point never
  gives bytes that decode to the same point (stated after \<open>flipBit\<close> below).
\<close>

definition scalars_commute :: "('sc, 'g1, 'g2, 'gt) suite \<Rightarrow> bool" where
  "scalars_commute s \<longleftrightarrow>
     (\<forall>a b. sc_add s a b = sc_add s b a) \<and> (\<forall>a b. sc_mul s a b = sc_mul s b a)"

definition g1_module :: "('sc, 'g1, 'g2, 'gt) suite \<Rightarrow> bool" where
  "g1_module s \<longleftrightarrow>
     (\<forall>a b P. g1_mul s (sc_add s a b) P = g1_add s (g1_mul s a P) (g1_mul s b P)) \<and>
     (\<forall>a b P. g1_mul s (sc_mul s a b) P = g1_mul s a (g1_mul s b P))"

definition g2_new_neutral :: "('sc, 'g1, 'g2, 'gt) suite \<Rightarrow> bool" where
  "g2_new_neutral s \<longleftrightarrow> (\<forall>P. g2_add s (g2_new s) P = P)"

definition g2_abelian :: "('sc, 'g1, 'g2, 'gt) suite \<Rightarrow> bool" where
  "g2_abelian s \<longleftrightarrow>
     (\<forall>P Q. g2_add s P Q = g2_add s Q P) \<and>
     (\<forall>P Q R. g2_add s (g2_add s P Q) R = g2_add s P (g2_add s Q R))"

definition g2_module :: "('sc, 'g1, 'g2, 'gt) suite \<Rightarrow> bool" where
  "g2_module s \<longleftrightarrow>
     (\<forall>a b P. g2_mul s (sc_add s a b) P = g2_add s (g2_mul s a P) (g2_mul s b P)) \<and>
     (\<forall>a b P. g2_mul s (sc_mul s a b) P = g2_mul s a (g2_mul s b P)) \<and>
     (\<forall>P. g2_mul s (sc_new s) P = g2_new s)"

definition bilinear :: "('sc, 'g1, 'g2, 'gt) suite \<Rightarrow> bool" where
  "bilinear s \<longleftrightarrow> (\<forall>a P Q. pair s (g1_mul s a P) Q = pair s P (g2_mul s a Q))"

definition nondegenerate :: "('sc, 'g1, 'g2, 'gt) suite \<Rightarrow> bool" where
  "nondegenerate s \<longleftrightarrow>
     (\<forall>P P' Q. Q \<noteq> g2_new s \<longrightarrow> pair s P Q = pair s P' Q \<longrightarrow> P = P') \<and>
     g2_base s \<noteq> g2_new s"

definition sc_codec :: "('sc, 'g1, 'g2, 'gt) suite \<Rightarrow> bool" where
  "sc_codec s \<longleftrightarrow> (\<forall>x. \<exists>b. sc_marshal s x = Inr b \<and> sc_unmarshal s b = Inr x)"

definition g1_codec :: "('sc, 'g1, 'g2, 'gt) suite \<Rightarrow> bool" where
  "g1_codec s \<longleftrightarrow> (\<forall>P. \<exists>b. g1_marshal s P = Inr b \<and> g1_unmarshal s b = Inr P)"

definition g2_codec :: "('sc, 'g1, 'g2, 'gt) suite \<Rightarrow> bool" where
  "g2_codec s \<longleftrightarrow> (\<forall>P. \<exists>b. g2_marshal s P = Inr b \<and> g2_unmarshal s b = Inr P)"

text \<open>The laws that signing followed by verification relies on.\<close>

definition suite_ok :: "('sc, 'g1, 'g2, 'gt) suite \<Rightarrow> bool" where
  "suite_ok s \<longleftrightarrow>
     scalars_commute s \<and> g1_module s \<and> g2_new_neutral s \<and> g2_abelian s \<and> g2_module s \<and>
     bilinear s \<and> sc_codec s \<and> g1_codec s \<and> g2_codec s"

text \<open>A private key and the public key that belongs to it: \<open>pubKey[i] = priKey[i] * g2\<close>.\<close>

definition keyPair :: "('sc, 'g1, 'g2, 'gt) suite \<Rightarrow> 'sc list \<Rightarrow> 'g2 list \<Rightarrow> bool" where
  "keyPair s priKey pubKey \<longleftrightarrow> pubKey = map (\<lambda>x. g2_mul s x (g2_base s)) priKey"

subsection \<open>The verification equation as the specification writes it\<close>

text \<open>
  \<open>X \<cdot> \<Prod> Y\<^sub>i^m\<^sub>i\<close> in the additive notation of the code: the point \<open>pubKey[0]\<close>
  plus the sum of \<open>m\<^sub>i * pubKey[i+1]\<close> over the messages supplied.
\<close>

fun weighted_sum :: "('sc, 'g1, 'g2, 'gt) suite \<Rightarrow> 'g2 list \<Rightarrow> bytes list \<Rightarrow> 'g2" where
  "weighted_sum s Ys [] = g2_new s"
| "weighted_sum s [] (m # ms) = g2_new s"
| "weighted_sum s (Y # Ys) (m # ms) =
     g2_add s (g2_mul s (sc_set_bytes s m) Y) (weighted_sum s Ys ms)"

definition equation_point :: "('sc, 'g1, 'g2, 'gt) suite \<Rightarrow> 'g2 list \<Rightarrow> bytes list \<Rightarrow> 'g2" where
  "equation_point s pubKey msgs = g2_add s (pubKey ! 0) (weighted_sum s (tl pubKey) msgs)"

subsection \<open>Aggregation chains\<close>

text \<open>
  A chain is AggreSign followed by calls of AggregatePSSign, each on the output of the
  one before, as TestAggregatePSSign composes them.  A link is the scalar of the
  extending signer, its message and the scalar \<open>t\<close> it draws.
\<close>

fun aggregateChain ::
  "('sc, 'g1, 'g2, 'gt) suite \<Rightarrow> bytes list \<Rightarrow> ('sc \<times> bytes \<times> 'sc) list \<Rightarrow> error + bytes list" where
  "aggregateChain s S [] = Inr S"
| "aggregateChain s S ((y, msg, t) # links) =
     (case AggregatePSSign s y S msg t of
        Inl err \<Rightarrow> Inl err
      | Inr S' \<Rightarrow> aggregateChain s S' links)"

text \<open>The exponent \<open>E + \<Sum> y\<^sub>i * m\<^sub>i\<close> over the links.\<close>

fun chainExponent ::
  "('sc, 'g1, 'g2, 'gt) suite \<Rightarrow> 'sc \<Rightarrow> ('sc \<times> bytes \<times> 'sc) list \<Rightarrow> 'sc" where
  "chainExponent s E [] = E"
| "chainExponent s E ((y, msg, t) # links) =
     chainExponent s (sc_add s E (sc_mul s y (sc_set_bytes s msg))) links"

text \<open>\<open>S\<close> is a pair of encodings of \<open>sigma1\<close> and \<open>sigma2 = E * sigma1\<close>.\<close>

definition exponentOf :: "('sc, 'g1, 'g2, 'gt) suite \<Rightarrow> bytes list \<Rightarrow> 'sc \<Rightarrow> bool" where
  "exponentOf s S E =
     (case S of
        [b1, b2] \<Rightarrow>
          (case g1_unmarshal s b1 of
             Inl err \<Rightarrow> False
           | Inr sigma1 \<Rightarrow>
               (case g1_unmarshal s b2 of
                  Inl err \<Rightarrow> False
                | Inr sigma2 \<Rightarrow> sigma2 = g1_mul s E sigma1))
      | _ \<Rightarrow> False)"

text \<open>\<open>S\<close> is a pair of encodings of the points \<open>sigma1\<close> and \<open>sigma2\<close>.\<close>

definition decodesTo :: "('sc, 'g1, 'g2, 'gt) suite \<Rightarrow> bytes list \<Rightarrow> 'g1 \<Rightarrow> 'g1 \<Rightarrow> bool" where
  "decodesTo s S sigma1 sigma2 =
     (case S of
        [b1, b2] \<Rightarrow> g1_unmarshal s b1 = Inr sigma1 \<and> g1_unmarshal s b2 = Inr sigma2
      | _ \<Rightarrow> False)"

subsection \<open>Tampering\<close>

text \<open>Bit \<open>k\<close> of byte \<open>j\<close> inverted, as \<^verbatim>\<open>sig[0][j] ^= 1 << k\<close> in the tests.\<close>

definition flipBit :: "bytes \<Rightarrow> nat \<Rightarrow> nat \<Rightarrow> bytes" where
  "flipBit b j k = b[j := xor (b ! j) (push_bit k 1)]"

text \<open>
  The law of the G1 encoding that tampering relies on: the bytes that MarshalBinary
  writes for a point, with one bit inverted, do not decode to that point.  Nothing is
  asked of byte strings that MarshalBinary does not write, so an encoding that also
  reads other strings as points (bytes after the last one it needs, or coordinates
  that are not reduced) satisfies it.
\<close>

definition g1_flip_separated :: "('sc, 'g1, 'g2, 'gt) suite \<Rightarrow> bool" where
  "g1_flip_separated s \<longleftrightarrow>
     (\<forall>P b j k. g1_marshal s P = Inr b \<longrightarrow> j < length b \<longrightarrow> k < 8 \<longrightarrow>
        g1_unmarshal s (flipBit b j k) \<noteq> Inr P)"

subsection \<open>A suite that satisfies the laws\<close>

text \<open>
  The integers as scalars and as each of the three groups, the product as pairing.  An
  integer is encoded as a sign byte followed by as many zero bytes as its magnitude.
\<close>

definition Z_marshal :: "int \<Rightarrow> string + bytes" where
  "Z_marshal n = Inr ((if n < 0 then 1 else 0) # replicate (nat \<bar>n\<bar>) 0)"

definition Z_unmarshal :: "bytes \<Rightarrow> string + int" where
  "Z_unmarshal b =
     (case b of
        [] \<Rightarrow> Inl ''short buffer''
      | sg # rest \<Rightarrow>
          if \<not> list_all (\<lambda>x. x = 0) rest then Inl ''malformed''
          else if sg = 0 then Inr (int (length rest))
          else if sg = 1 \<and> rest \<noteq> [] then Inr (- int (length rest))
          else Inl ''malformed'')"

definition Z_set_bytes :: "bytes \<Rightarrow> int" where
  "Z_set_bytes msg = foldl (\<lambda>n b. n * 256 + uint b) 0 msg"

definition Z_suite :: "(int, int, int, int) suite" where
  "Z_suite =
     \<lparr> sc_new = 0, sc_add = (+), sc_mul = (*), sc_set_bytes = Z_set_bytes,
       sc_marshal = Z_marshal, sc_unmarshal = Z_unmarshal,
       g1_base = 1, g1_add = (+), g1_mul = (*),
       g1_marshal = Z_marshal, g1_unmarshal = Z_unmarshal,
       g2_new = 0, g2_base = 1, g2_add = (+), g2_mul = (*),
       g2_marshal = Z_marshal, g2_unmarshal = Z_unmarshal,
       pair = (*) \<rparr>"

section \<open>Properties\<close>

subsection \<open>The integer suite satisfies the laws\<close>

lemma list_all_replicate_zero: "list_all (\<lambda>x. x = (0::8 word)) (replicate n 0)"
  by (induction n) simp_all

lemma all_zero_replicate:
  "list_all (\<lambda>x. x = (0::8 word)) xs \<Longrightarrow> replicate (length xs) 0 = xs"
  by (induction xs) simp_all

lemma Z_roundtrip: "\<exists>b. Z_marshal n = Inr b \<and> Z_unmarshal b = Inr n"
  by (simp add: Z_marshal_def Z_unmarshal_def list_all_replicate_zero)

lemma Z_canonical:
  assumes dec: "Z_unmarshal b = Inr n"
  shows "Z_marshal n = Inr b"
proof (cases b)
  case Nil
  with dec show ?thesis by (simp add: Z_unmarshal_def)
next
  case (Cons sg rest)
  with dec have z: "list_all (\<lambda>x. x = 0) rest"
    by (auto simp: Z_unmarshal_def split: if_splits)
  then have r: "replicate (length rest) 0 = rest" by (rule all_zero_replicate)
  from dec Cons z show ?thesis
    by (auto simp: Z_unmarshal_def Z_marshal_def r split: if_splits)
qed

lemma Z_suite_laws:
  "scalars_commute Z_suite" "g1_module Z_suite" "g2_new_neutral Z_suite"
  "g2_abelian Z_suite" "g2_module Z_suite" "bilinear Z_suite" "nondegenerate Z_suite"
  "sc_codec Z_suite" "g1_codec Z_suite" "g2_codec Z_suite"
  by (auto simp: scalars_commute_def g1_module_def g2_new_neutral_def g2_abelian_def
      g2_module_def bilinear_def nondegenerate_def sc_codec_def g1_codec_def g2_codec_def
      Z_suite_def Z_roundtrip algebra_simps)

subsection \<open>What Sign and the verifiers read\<close>

text \<open>
  C10.  Sign reads the private key at indices 0 and 1 only: two keys of length at least 2
  that agree there give the same signature for the same message and the same point \<open>h\<close>.
\<close>

theorem Sign_ignores_higher_slots:
  "2 \<le> length priKey \<Longrightarrow> 2 \<le> length priKey' \<Longrightarrow>
   priKey ! 0 = priKey' ! 0 \<Longrightarrow> priKey ! 1 = priKey' ! 1 \<Longrightarrow>
   Sign s priKey msg h = Sign s priKey' msg h"
  by (simp add: Sign_def split: sum.splits)

theorem Sign_ignores_higher_slots_witness:
  "Sign Z_suite [2, 1] [1] 3 = Sign Z_suite [2, 1, 7, 9] [1] 3"
  using Sign_ignores_higher_slots [of "[2, 1]" "[2, 1, 7, 9]" Z_suite "[1]" 3] by simp

text \<open>
  C8.  Verify on a message and PSBatchVerify on the one-element vector of that message
  return the same outcome, for every public key and every signature (also those on
  which both panic or both fail to decode), when the fresh G2 point is neutral.
\<close>

theorem Verify_eq_PSBatchVerify_singleton:
  "g2_new_neutral s \<Longrightarrow> Verify s pubKey msg S = PSBatchVerify s pubKey [msg] S"
  by (simp add: Verify_def PSBatchVerify_def g2_new_neutral_def Let_def)

theorem Verify_eq_PSBatchVerify_singleton_witness:
  "Verify Z_suite [2, 1] [1] [[0, 0], [0, 0, 0, 0]] = PSBatchVerify Z_suite [2, 1] [[1]] [[0, 0], [0, 0, 0, 0]]"
  using Verify_eq_PSBatchVerify_singleton [of Z_suite "[2, 1]" "[1]" "[[0, 0], [0, 0, 0, 0]]"]
  by (simp add: Z_suite_laws)

subsection \<open>Index safety of the batch loops\<close>

lemma batchSignLoop_in_range:
  "i + length msgs < length priKey \<Longrightarrow> \<exists>y'. batchSignLoop s priKey i msgs y = Inr y'"
  by (induction msgs arbitrary: i y) (simp_all add: Let_def)

lemma batchVerifyLoop_in_range:
  "i + length msgs < length pubKey \<Longrightarrow> \<exists>Y'. batchVerifyLoop s pubKey i msgs Y = Inr Y'"
  by (induction msgs arbitrary: i Y) (simp_all add: Let_def)

lemma batchSignLoop_out_of_range:
  "i < length priKey \<Longrightarrow> length priKey \<le> i + length msgs \<Longrightarrow>
   batchSignLoop s priKey i msgs y = Inl IndexOutOfRange"
  by (induction msgs arbitrary: i y) (simp_all add: Let_def)

lemma batchVerifyLoop_out_of_range:
  "i < length pubKey \<Longrightarrow> length pubKey \<le> i + length msgs \<Longrightarrow>
   batchVerifyLoop s pubKey i msgs Y = Inl IndexOutOfRange"
  by (induction msgs arbitrary: i Y) (simp_all add: Let_def)

lemma batchSignLoop_Inl:
  "batchSignLoop s priKey i msgs y = Inl e \<Longrightarrow> e = IndexOutOfRange"
  by (induction msgs arbitrary: i y) (simp_all add: Let_def split: if_splits)

lemma batchVerifyLoop_Inl:
  "batchVerifyLoop s pubKey i msgs Y = Inl e \<Longrightarrow> e = IndexOutOfRange"
  by (induction msgs arbitrary: i Y) (simp_all add: Let_def split: if_splits)

lemma BatchSign_no_panic:
  assumes "length msgs + 1 \<le> length priKey"
  shows "BatchSign s priKey msgs h \<noteq> Inl IndexOutOfRange"
proof -
  from assms obtain y where "batchSignLoop s priKey 0 msgs (sc_new s) = Inr y"
    using batchSignLoop_in_range [of 0 msgs priKey s "sc_new s"] by auto
  with assms show ?thesis
    by (auto simp: BatchSign_def Let_def split: sum.splits)
qed

lemma BatchSign_panic:
  assumes "length priKey \<le> length msgs" and "g1_marshal s h = Inr binH"
  shows "BatchSign s priKey msgs h = Inl IndexOutOfRange"
proof (cases "priKey = []")
  case True
  with assms show ?thesis
    by (auto simp: BatchSign_def split: sum.splits dest: batchSignLoop_Inl)
next
  case False
  with assms have "batchSignLoop s priKey 0 msgs (sc_new s) = Inl IndexOutOfRange"
    by (intro batchSignLoop_out_of_range) simp_all
  with assms show ?thesis by (simp add: BatchSign_def)
qed

lemma PSBatchVerify_panic:
  assumes "length pubKey \<le> length msgs"
  shows "PSBatchVerify s pubKey msgs S = Some IndexOutOfRange"
proof (cases "pubKey = []")
  case True
  with assms show ?thesis
    by (auto simp: PSBatchVerify_def split: sum.splits dest: batchVerifyLoop_Inl)
next
  case False
  with assms have "batchVerifyLoop s pubKey 0 msgs (g2_new s) = Inl IndexOutOfRange"
    by (intro batchVerifyLoop_out_of_range) simp_all
  with assms show ?thesis by (simp add: PSBatchVerify_def)
qed

text \<open>
  C9.  When the message vector has at most \<open>|priKey| - 1\<close> entries, every access
  \<open>priKey[i+1]\<close> of the loop of BatchSign is in range and BatchSign does not panic; the
  same holds for the accesses \<open>pubKey[i+1]\<close> of the loop of PSBatchVerify.  Neither
  function checks the length: with a longer message vector both panic.
\<close>

theorem batch_index_safety:
  "(length msgs + 1 \<le> length priKey \<longrightarrow>
      (\<exists>y. batchSignLoop s priKey 0 msgs (sc_new s) = Inr y) \<and>
      BatchSign s priKey msgs h \<noteq> Inl IndexOutOfRange) \<and>
   (length msgs + 1 \<le> length pubKey \<longrightarrow>
      (\<exists>Y. batchVerifyLoop s pubKey 0 msgs (g2_new s) = Inr Y)) \<and>
   (length priKey \<le> length msgs \<longrightarrow> g1_marshal s h = Inr binH \<longrightarrow>
      BatchSign s priKey msgs h = Inl IndexOutOfRange) \<and>
   (length pubKey \<le> length msgs \<longrightarrow> PSBatchVerify s pubKey msgs S = Some IndexOutOfRange)"
  using batchSignLoop_in_range [of 0 msgs priKey s "sc_new s"]
    batchVerifyLoop_in_range [of 0 msgs pubKey s "g2_new s"]
    BatchSign_no_panic [of msgs priKey s h] BatchSign_panic [of priKey msgs s h binH]
    PSBatchVerify_panic [of pubKey msgs s S]
  by simp

theorem batch_index_safety_witness:
  "((\<exists>y. batchSignLoop Z_suite [2, 1, 3] 0 [[1], [2]] (sc_new Z_suite) = Inr y) \<and>
    BatchSign Z_suite [2, 1, 3] [[1], [2]] 3 \<noteq> Inl IndexOutOfRange) \<and>
   (\<exists>Y. batchVerifyLoop Z_suite [2, 1, 3] 0 [[1], [2]] (g2_new Z_suite) = Inr Y) \<and>
   BatchSign Z_suite [2, 1] [[1], [2]] 3 = Inl IndexOutOfRange \<and>
   PSBatchVerify Z_suite [2, 1] [[1], [2]] [] = Some IndexOutOfRange"
  using batch_index_safety [of "[[1], [2]]" "[2, 1, 3]" Z_suite 3 "[2, 1, 3]" "[]" "[]"]
    batch_index_safety [of "[[1], [2]]" "[2, 1]" Z_suite 3 "[2, 1]" "0 # replicate 3 0" "[]"]
  by (simp add: Z_suite_def Z_marshal_def)

subsection \<open>Key generation\<close>

lemma priKeyLoop_codec:
  "sc_codec s \<Longrightarrow>
   \<exists>bs. priKeyLoop s randoms acc = Inr (acc @ bs) \<and> map (sc_unmarshal s) bs = map Inr randoms"
proof (induction randoms arbitrary: acc)
  case Nil
  then show ?case by simp
next
  case (Cons r randoms)
  from Cons.prems obtain b where b: "sc_marshal s r = Inr b" "sc_unmarshal s b = Inr r"
    unfolding sc_codec_def by blast
  from Cons.IH [OF Cons.prems, of "acc @ [b]"] obtain bs where
    "priKeyLoop s randoms (acc @ [b]) = Inr ((acc @ [b]) @ bs)"
    "map (sc_unmarshal s) bs = map Inr randoms" by blast
  with b show ?case by (intro exI [of _ "b # bs"]) simp
qed

lemma pubKeyLoop_codec:
  "g2_codec s \<Longrightarrow> map (sc_unmarshal s) bs = map Inr xs \<Longrightarrow>
   \<exists>ps. pubKeyLoop s bs acc = Inr (acc @ ps) \<and>
        map (g2_unmarshal s) ps = map (\<lambda>x. Inr (g2_mul s x (g2_base s))) xs"
proof (induction bs arbitrary: acc xs)
  case Nil
  then show ?case by simp
next
  case (Cons b bs)
  from Cons.prems(2) obtain x xs' where xs: "xs = x # xs'" "sc_unmarshal s b = Inr x"
    "map (sc_unmarshal s) bs = map Inr xs'" by (cases xs) auto
  from Cons.prems(1) obtain p where p: "g2_marshal s (g2_mul s x (g2_base s)) = Inr p"
    "g2_unmarshal s p = Inr (g2_mul s x (g2_base s))"
    unfolding g2_codec_def by blast
  from Cons.IH [OF Cons.prems(1) xs(3), of "acc @ [p]"] obtain ps where
    "pubKeyLoop s bs (acc @ [p]) = Inr ((acc @ [p]) @ ps)"
    "map (g2_unmarshal s) ps = map (\<lambda>x. Inr (g2_mul s x (g2_base s))) xs'" by blast
  with xs p show ?case by (intro exI [of _ "p # ps"]) simp
qed

lemma NewKeyPair_codec:
  assumes "sc_codec s" "g2_codec s" "2 \<le> length randoms"
  shows "\<exists>PriKey PubKey. NewKeyPair s randoms = Inr (PriKey, PubKey) \<and>
           map (sc_unmarshal s) PriKey = map Inr randoms \<and>
           map (g2_unmarshal s) PubKey = map (\<lambda>x. Inr (g2_mul s x (g2_base s))) randoms"
proof -
  from priKeyLoop_codec [OF assms(1), of randoms "[]"] obtain bs where
    bs: "priKeyLoop s randoms [] = Inr bs" "map (sc_unmarshal s) bs = map Inr randoms" by auto
  from pubKeyLoop_codec [OF assms(2) bs(2), of "[]"] obtain ps where
    ps: "pubKeyLoop s bs [] = Inr ps"
    "map (g2_unmarshal s) ps = map (\<lambda>x. Inr (g2_mul s x (g2_base s))) randoms" by auto
  from assms(3) bs ps show ?thesis by (simp add: NewKeyPair_def)
qed

lemma NewKeyPair_Inr_length: "NewKeyPair s randoms = Inr K \<Longrightarrow> 2 \<le> length randoms"
  by (simp add: NewKeyPair_def split: if_splits)

text \<open>
  C6.  With fewer than two randomness sources NewKeyPair returns the error
  InsufficientRandomness.  With \<open>r \<ge> 2\<close> sources, over a suite whose encodings read
  back what was written, it returns \<open>r\<close> encoded scalars and \<open>r\<close> encoded G2 points,
  the point at each index being the base point multiplied by the scalar at that index.
\<close>

theorem NewKeyPair_contract:
  "(length randoms < 2 \<longrightarrow> NewKeyPair s randoms = Inl InsufficientRandomness) \<and>
   (sc_codec s \<and> g2_codec s \<and> 2 \<le> length randoms \<longrightarrow>
      (\<exists>PriKey PubKey. NewKeyPair s randoms = Inr (PriKey, PubKey) \<and>
         length PriKey = length randoms \<and> length PubKey = length randoms \<and>
         (\<forall>i<length randoms. \<exists>x.
            sc_unmarshal s (PriKey ! i) = Inr x \<and>
            g2_unmarshal s (PubKey ! i) = Inr (g2_mul s x (g2_base s)))))"
proof (intro conjI impI)
  assume "length randoms < 2"
  then show "NewKeyPair s randoms = Inl InsufficientRandomness" by (simp add: NewKeyPair_def)
next
  assume a: "sc_codec s \<and> g2_codec s \<and> 2 \<le> length randoms"
  then obtain PriKey PubKey where k: "NewKeyPair s randoms = Inr (PriKey, PubKey)"
    "map (sc_unmarshal s) PriKey = map Inr randoms"
    "map (g2_unmarshal s) PubKey = map (\<lambda>x. Inr (g2_mul s x (g2_base s))) randoms"
    using NewKeyPair_codec [of s randoms] by blast
  from k(2) have l1: "length PriKey = length randoms" by (rule map_eq_imp_length_eq)
  from k(3) have l2: "length PubKey = length randoms" by (rule map_eq_imp_length_eq)
  have "\<exists>x. sc_unmarshal s (PriKey ! i) = Inr x \<and>
            g2_unmarshal s (PubKey ! i) = Inr (g2_mul s x (g2_base s))" if "i < length randoms" for i
  proof -
    from that l1 k(2) have "sc_unmarshal s (PriKey ! i) = Inr (randoms ! i)"
      by (metis nth_map)
    moreover from that l2 k(3) have "g2_unmarshal s (PubKey ! i) = Inr (g2_mul s (randoms ! i) (g2_base s))"
      by (metis (no_types, lifting) nth_map)
    ultimately show ?thesis by blast
  qed
  with k(1) l1 l2 show "\<exists>PriKey PubKey. NewKeyPair s randoms = Inr (PriKey, PubKey) \<and>
         length PriKey = length randoms \<and> length PubKey = length randoms \<and>
         (\<forall>i<length randoms. \<exists>x.
            sc_unmarshal s (PriKey ! i) = Inr x \<and>
            g2_unmarshal s (PubKey ! i) = Inr (g2_mul s x (g2_base s)))" by blast
qed


theorem NewKeyPair_contract_witness:
  "NewKeyPair Z_suite [5] = Inl InsufficientRandomness \<and>
   (\<exists>PriKey PubKey. NewKeyPair Z_suite [2, 1] = Inr (PriKey, PubKey) \<and>
      length PriKey = 2 \<and> length PubKey = 2 \<and>
      (\<forall>i<2. \<exists>x. sc_unmarshal Z_suite (PriKey ! i) = Inr x \<and>
         g2_unmarshal Z_suite (PubKey ! i) = Inr (g2_mul Z_suite x (g2_base Z_suite))))"
  using NewKeyPair_contract [of "[5]" Z_suite] NewKeyPair_contract [of "[2, 1]" Z_suite]
  by (simp add: Z_suite_laws numeral_2_eq_2)

subsection \<open>Round trips\<close>

lemma g2_weighted_key:
  assumes "scalars_commute s" "g2_module s"
  shows "g2_mul s (sc_mul s y m) P = g2_mul s m (g2_mul s y P)"
proof -
  from assms(1) have "sc_mul s y m = sc_mul s m y" by (simp add: scalars_commute_def)
  with assms(2) show ?thesis by (simp add: g2_module_def)
qed

lemma pairing_moves_exponent:
  assumes "bilinear s" "X = g2_mul s E (g2_base s)"
  shows "pair s (g1_mul s E h) (g2_base s) = pair s h X"
  using assms by (simp add: bilinear_def)

lemma Sign_Verify_keyPair:
  assumes ok: "suite_ok s" and kp: "keyPair s priKey pubKey" and len: "2 \<le> length priKey"
  shows "\<exists>S. Sign s priKey msg h = Inr S \<and> Verify s pubKey msg S = None"
proof -
  define m where "m = sc_set_bytes s msg"
  define E where "E = sc_add s (priKey ! 0) (sc_mul s (priKey ! 1) m)"
  from ok have laws: "scalars_commute s" "g2_module s" "g2_abelian s" "bilinear s" "g1_codec s"
    by (simp_all add: suite_ok_def)
  from laws(5) obtain b1 where b1: "g1_marshal s h = Inr b1" "g1_unmarshal s b1 = Inr h"
    unfolding g1_codec_def by blast
  from laws(5) obtain b2 where b2: "g1_marshal s (g1_mul s E h) = Inr b2"
    "g1_unmarshal s b2 = Inr (g1_mul s E h)"
    unfolding g1_codec_def by blast
  from len b1 b2 have sig: "Sign s priKey msg h = Inr [b1, b2]"
    by (simp add: Sign_def E_def m_def)
  from len have len': "0 < length priKey" "1 < length priKey" by auto
  with kp have pk: "length pubKey = length priKey"
    "pubKey ! 0 = g2_mul s (priKey ! 0) (g2_base s)"
    "pubKey ! 1 = g2_mul s (priKey ! 1) (g2_base s)"
    by (simp_all add: keyPair_def)
  have "g2_mul s E (g2_base s) =
        g2_add s (g2_mul s (priKey ! 0) (g2_base s)) (g2_mul s (sc_mul s (priKey ! 1) m) (g2_base s))"
    using laws(2) by (simp add: E_def g2_module_def)
  also have "\<dots> = g2_add s (pubKey ! 0) (g2_mul s m (pubKey ! 1))"
    using pk g2_weighted_key [OF laws(1) laws(2)] by simp
  also have "\<dots> = g2_add s (g2_mul s m (pubKey ! 1)) (pubKey ! 0)"
    using laws(3) by (simp add: g2_abelian_def)
  finally have X: "g2_add s (g2_mul s m (pubKey ! 1)) (pubKey ! 0) = g2_mul s E (g2_base s)"
    by simp
  have "pair s (g1_mul s E h) (g2_base s) =
        pair s h (g2_add s (g2_mul s m (pubKey ! 1)) (pubKey ! 0))"
    using laws(4) X by (intro pairing_moves_exponent) simp_all
  with len pk b1 b2 have "Verify s pubKey msg [b1, b2] = None"
    by (simp add: Verify_def m_def)
  with sig show ?thesis by blast
qed

lemma NewKeyPair_decoded:
  assumes "sc_codec s" "g2_codec s" "NewKeyPair s randoms = Inr (PriKey, PubKey)"
    and "map (sc_unmarshal s) PriKey = map Inr priKey"
    and "map (g2_unmarshal s) PubKey = map Inr pubKey"
  shows "priKey = randoms" and "keyPair s priKey pubKey" and "2 \<le> length priKey"
proof -
  from assms(3) have len: "2 \<le> length randoms" by (rule NewKeyPair_Inr_length)
  with NewKeyPair_codec [OF assms(1) assms(2)] assms(3) have
    dec: "map (sc_unmarshal s) PriKey = map Inr randoms"
    "map (g2_unmarshal s) PubKey = map (\<lambda>x. Inr (g2_mul s x (g2_base s))) randoms"
    by fastforce+
  from dec(1) assms(4) have "map Inr priKey = (map Inr randoms :: (string + 'a) list)" by simp
  then have eq: "priKey = randoms" by (simp add: inj_map_eq_map)
  from dec(2) assms(5) have
    "map Inr pubKey = (map Inr (map (\<lambda>x. g2_mul s x (g2_base s)) randoms) :: (string + 'c) list)"
    by simp
  then have "pubKey = map (\<lambda>x. g2_mul s x (g2_base s)) randoms" by (simp only: inj_map_eq_map [OF inj_Inr])
  with eq len show "priKey = randoms" and "keyPair s priKey pubKey" and "2 \<le> length priKey"
    by (simp_all add: keyPair_def)
qed

text \<open>
  C1.  For every key pair that NewKeyPair returns (from at least two randomness sources,
  or it returns none) and every message, Sign on the decoded private key returns a
  signature, whatever point \<open>h\<close> it draws, and Verify accepts that signature under the
  decoded public key.
\<close>

theorem Sign_Verify_roundtrip:
  assumes "suite_ok s" and "NewKeyPair s randoms = Inr (PriKey, PubKey)"
    and "map (sc_unmarshal s) PriKey = map Inr priKey"
    and "map (g2_unmarshal s) PubKey = map Inr pubKey"
  shows "\<exists>S. Sign s priKey msg h = Inr S \<and> Verify s pubKey msg S = None"
proof -
  from assms(1) have "sc_codec s" "g2_codec s" by (simp_all add: suite_ok_def)
  from NewKeyPair_decoded(2,3) [OF this assms(2-4)] assms(1)
  show ?thesis by (simp add: Sign_Verify_keyPair)
qed

lemma Z_suite_ok: "suite_ok Z_suite"
  by (simp add: suite_ok_def Z_suite_laws)

theorem Sign_Verify_roundtrip_witness:
  "\<exists>S. Sign Z_suite [2, 1] [1] 3 = Inr S \<and> Verify Z_suite [2, 1] [1] S = None"
proof -
  have k: "NewKeyPair Z_suite [2, 1] = Inr ([[0, 0, 0], [0, 0]], [[0, 0, 0], [0, 0]])"
    by (simp add: NewKeyPair_def Z_suite_def Z_marshal_def Z_unmarshal_def numeral_2_eq_2)
  have d1: "map (sc_unmarshal Z_suite) [[0, 0, 0], [0, 0]] = map Inr [2, 1]"
    by (simp add: Z_suite_def Z_unmarshal_def)
  have d2: "map (g2_unmarshal Z_suite) [[0, 0, 0], [0, 0]] = map Inr [2, 1]"
    by (simp add: Z_suite_def Z_unmarshal_def)
  show ?thesis by (rule Sign_Verify_roundtrip [OF Z_suite_ok k d1 d2])
qed


lemma batch_loops_agree:
  assumes sc: "scalars_commute s" and g2: "g2_module s" and kp: "keyPair s priKey pubKey"
  shows "i + length msgs < length priKey \<Longrightarrow>
         \<exists>y'. batchSignLoop s priKey i msgs y = Inr y' \<and>
              batchVerifyLoop s pubKey i msgs (g2_mul s y (g2_base s)) =
                Inr (g2_mul s y' (g2_base s))"
proof (induction msgs arbitrary: i y)
  case Nil
  then show ?case by simp
next
  case (Cons msg msgs)
  define m where "m = sc_set_bytes s msg"
  define y1 where "y1 = sc_add s y (sc_mul s (priKey ! (i + 1)) m)"
  from Cons.prems have i: "i + 1 < length priKey" "(i + 1) + length msgs < length priKey"
    by simp_all
  with kp have pk: "length pubKey = length priKey"
    "pubKey ! (i + 1) = g2_mul s (priKey ! (i + 1)) (g2_base s)"
    by (simp_all add: keyPair_def)
  have "g2_mul s y1 (g2_base s) =
        g2_add s (g2_mul s y (g2_base s)) (g2_mul s (sc_mul s (priKey ! (i + 1)) m) (g2_base s))"
    using g2 by (simp add: y1_def g2_module_def)
  also have "\<dots> = g2_add s (g2_mul s y (g2_base s)) (g2_mul s m (pubKey ! (i + 1)))"
    using pk g2_weighted_key [OF sc g2] by simp
  finally have Y1: "g2_add s (g2_mul s y (g2_base s)) (g2_mul s m (pubKey ! (i + 1))) =
                    g2_mul s y1 (g2_base s)" by simp
  from Cons.IH [OF i(2), of y1] obtain y' where
    "batchSignLoop s priKey (i + 1) msgs y1 = Inr y'"
    "batchVerifyLoop s pubKey (i + 1) msgs (g2_mul s y1 (g2_base s)) = Inr (g2_mul s y' (g2_base s))"
    by blast
  with i pk Y1 show ?case by (simp add: m_def y1_def Let_def)
qed

text \<open>
  C2.  For every key pair with \<open>r\<close> slots and every message vector of length at most
  \<open>r - 1\<close>, BatchSign returns a signature, whatever point \<open>h\<close> it draws, and
  PSBatchVerify accepts it for the same messages.
\<close>

theorem BatchSign_PSBatchVerify_roundtrip:
  assumes ok: "suite_ok s" and kp: "keyPair s priKey pubKey"
    and len: "length msgs + 1 \<le> length priKey"
  shows "\<exists>S. BatchSign s priKey msgs h = Inr S \<and> PSBatchVerify s pubKey msgs S = None"
proof -
  from ok have laws: "scalars_commute s" "g2_module s" "g2_abelian s" "bilinear s" "g1_codec s"
    by (simp_all add: suite_ok_def)
  from len have len': "0 + length msgs < length priKey" "0 < length priKey" by auto
  from laws(2) have new: "g2_mul s (sc_new s) (g2_base s) = g2_new s" by (simp add: g2_module_def)
  from batch_loops_agree [OF laws(1) laws(2) kp len'(1), of "sc_new s"] new obtain y where
    y: "batchSignLoop s priKey 0 msgs (sc_new s) = Inr y"
    "batchVerifyLoop s pubKey 0 msgs (g2_new s) = Inr (g2_mul s y (g2_base s))" by auto
  define E where "E = sc_add s (priKey ! 0) y"
  from laws(5) obtain b1 where b1: "g1_marshal s h = Inr b1" "g1_unmarshal s b1 = Inr h"
    unfolding g1_codec_def by blast
  from laws(5) obtain b2 where b2: "g1_marshal s (g1_mul s E h) = Inr b2"
    "g1_unmarshal s b2 = Inr (g1_mul s E h)"
    unfolding g1_codec_def by blast
  from len' b1 b2 y have sig: "BatchSign s priKey msgs h = Inr [b1, b2]"
    by (simp add: BatchSign_def E_def)
  from kp len' have pk: "length pubKey = length priKey"
    "pubKey ! 0 = g2_mul s (priKey ! 0) (g2_base s)"
    by (simp_all add: keyPair_def)
  have "g2_mul s E (g2_base s) = g2_add s (pubKey ! 0) (g2_mul s y (g2_base s))"
    using laws(2) pk by (simp add: E_def g2_module_def)
  also have "\<dots> = g2_add s (g2_mul s y (g2_base s)) (pubKey ! 0)"
    using laws(3) by (simp add: g2_abelian_def)
  finally have X: "g2_add s (g2_mul s y (g2_base s)) (pubKey ! 0) = g2_mul s E (g2_base s)"
    by simp
  have "pair s (g1_mul s E h) (g2_base s) =
        pair s h (g2_add s (g2_mul s y (g2_base s)) (pubKey ! 0))"
    using laws(4) X by (intro pairing_moves_exponent) simp_all
  with len' pk b1 b2 y have "PSBatchVerify s pubKey msgs [b1, b2] = None"
    by (simp add: PSBatchVerify_def)
  with sig show ?thesis by blast
qed

theorem BatchSign_PSBatchVerify_roundtrip_witness:
  "\<exists>S. BatchSign Z_suite [2, 1, 3] [[1], [2]] 3 = Inr S \<and>
       PSBatchVerify Z_suite [2, 1, 3] [[1], [2]] S = None"
proof -
  have kp: "keyPair Z_suite [2, 1, 3] [2, 1, 3]" by (simp add: keyPair_def Z_suite_def)
  have len: "length [[1], [2::8 word]] + 1 \<le> length [2, 1, 3::int]" by simp
  show ?thesis by (rule BatchSign_PSBatchVerify_roundtrip [OF Z_suite_ok kp len])
qed

subsection \<open>Aggregation\<close>

lemma exponentOf_decodesTo:
  "exponentOf s S E \<longleftrightarrow> (\<exists>sigma1. decodesTo s S sigma1 (g1_mul s E sigma1))"
  by (auto simp: exponentOf_def decodesTo_def split: list.splits sum.splits)

lemma AggreSign_exponent:
  assumes codec: "g1_codec s" and g1: "g1_module s" and len: "2 \<le> length priKey"
  shows "\<exists>S. AggreSign s priKey msg t = Inr S \<and>
             decodesTo s S (g1_mul s t (g1_base s))
               (g1_mul s (sc_add s (priKey ! 0) (sc_mul s (priKey ! 1) (sc_set_bytes s msg)))
                  (g1_mul s t (g1_base s)))"
proof -
  define E where "E = sc_add s (priKey ! 0) (sc_mul s (priKey ! 1) (sc_set_bytes s msg))"
  define sigma1 where "sigma1 = g1_mul s t (g1_base s)"
  define sigma2 where "sigma2 = g1_mul s (sc_mul s E t) (g1_base s)"
  from g1 have rel: "sigma2 = g1_mul s E sigma1"
    by (simp add: sigma1_def sigma2_def g1_module_def)
  from codec obtain b1 where b1: "g1_marshal s sigma1 = Inr b1" "g1_unmarshal s b1 = Inr sigma1"
    unfolding g1_codec_def by blast
  from codec obtain b2 where b2: "g1_marshal s sigma2 = Inr b2" "g1_unmarshal s b2 = Inr sigma2"
    unfolding g1_codec_def by blast
  from len have "1 < length priKey" by auto
  with b1 b2 have "AggreSign s priKey msg t = Inr [b1, b2]"
    by (simp add: AggreSign_def E_def sigma1_def sigma2_def)
  moreover from b1 b2 rel have "decodesTo s [b1, b2] sigma1 (g1_mul s E sigma1)"
    by (simp add: decodesTo_def)
  ultimately show ?thesis unfolding E_def sigma1_def by blast
qed

lemma extend_algebra:
  assumes sc: "scalars_commute s" and g1: "g1_module s"
  shows "g1_mul s t (g1_add s (g1_mul s e sigma1) (g1_mul s E sigma1)) =
         g1_mul s (sc_add s E e) (g1_mul s t sigma1)"
proof -
  have "g1_add s (g1_mul s e sigma1) (g1_mul s E sigma1) = g1_mul s (sc_add s e E) sigma1"
    using g1 by (simp add: g1_module_def)
  also have "sc_add s e E = sc_add s E e"
    using sc by (simp add: scalars_commute_def)
  finally have "g1_mul s t (g1_add s (g1_mul s e sigma1) (g1_mul s E sigma1)) =
                g1_mul s (sc_mul s t (sc_add s E e)) sigma1"
    using g1 by (simp add: g1_module_def)
  also have "sc_mul s t (sc_add s E e) = sc_mul s (sc_add s E e) t"
    using sc by (simp add: scalars_commute_def)
  finally show ?thesis using g1 by (simp add: g1_module_def)
qed

lemma AggregatePSSign_step:
  assumes codec: "g1_codec s" and dec: "decodesTo s S sigma1 sigma2"
  shows "\<exists>S'. AggregatePSSign s y S msg t = Inr S' \<and>
              decodesTo s S' (g1_mul s t sigma1)
                (g1_mul s t (g1_add s (g1_mul s (sc_mul s y (sc_set_bytes s msg)) sigma1) sigma2))"
proof -
  define sigma2' where
    "sigma2' = g1_mul s t (g1_add s (g1_mul s (sc_mul s y (sc_set_bytes s msg)) sigma1) sigma2)"
  from dec obtain c1 c2 where S: "S = [c1, c2]" "g1_unmarshal s c1 = Inr sigma1"
    "g1_unmarshal s c2 = Inr sigma2"
    by (auto simp: decodesTo_def split: list.splits)
  from codec obtain b1 where b1: "g1_marshal s (g1_mul s t sigma1) = Inr b1"
    "g1_unmarshal s b1 = Inr (g1_mul s t sigma1)"
    unfolding g1_codec_def by blast
  from codec obtain b2 where b2: "g1_marshal s sigma2' = Inr b2" "g1_unmarshal s b2 = Inr sigma2'"
    unfolding g1_codec_def by blast
  from S b1 b2 have "AggregatePSSign s y S msg t = Inr [b1, b2]"
    by (simp add: AggregatePSSign_def sigma2'_def)
  moreover from b1 b2 have "decodesTo s [b1, b2] (g1_mul s t sigma1) sigma2'"
    by (simp add: decodesTo_def)
  ultimately show ?thesis unfolding sigma2'_def by blast
qed

lemma AggregatePSSign_exponent:
  assumes codec: "g1_codec s" and g1: "g1_module s" and sc: "scalars_commute s"
    and ex: "exponentOf s S E"
  shows "\<exists>S'. AggregatePSSign s y S msg t = Inr S' \<and>
              exponentOf s S' (sc_add s E (sc_mul s y (sc_set_bytes s msg)))"
proof -
  from ex obtain sigma1 where dec: "decodesTo s S sigma1 (g1_mul s E sigma1)"
    by (auto simp: exponentOf_decodesTo)
  from AggregatePSSign_step [OF codec dec, of y msg t] extend_algebra [OF sc g1]
  show ?thesis by (auto simp: exponentOf_decodesTo)
qed

lemma aggregateChain_exponent:
  assumes codec: "g1_codec s" and g1: "g1_module s" and sc: "scalars_commute s"
  shows "exponentOf s S E \<Longrightarrow>
         \<exists>S'. aggregateChain s S links = Inr S' \<and> exponentOf s S' (chainExponent s E links)"
proof (induction links arbitrary: S E)
  case Nil
  then show ?case by simp
next
  case (Cons link links)
  obtain y msg t where link: "link = (y, msg, t)" by (cases link)
  from AggregatePSSign_exponent [OF codec g1 sc Cons.prems, of y msg t] obtain S1 where
    S1: "AggregatePSSign s y S msg t = Inr S1"
    "exponentOf s S1 (sc_add s E (sc_mul s y (sc_set_bytes s msg)))" by blast
  from Cons.IH [OF S1(2)] S1(1) link show ?case by simp
qed

text \<open>
  C4.  AggreSign returns a pair with \<open>sigma2 = (x + y\<^sub>1 * m\<^sub>1) * sigma1\<close>.  A call of
  AggregatePSSign with scalar \<open>y\<close>, message \<open>m\<close> and draw \<open>t\<close> maps a pair with
  \<open>sigma2 = E * sigma1\<close> to the pair \<open>(t * sigma1, t * ((y * m) * sigma1 + sigma2))\<close>,
  for which \<open>sigma2' = (E + y * m) * sigma1'\<close>.  Hence after any list of links the
  exponent is \<open>x + y\<^sub>1 * m\<^sub>1\<close> plus the sum of \<open>y\<^sub>i * m\<^sub>i\<close> over the links.
\<close>

theorem aggregation_chain_invariant:
  assumes codec: "g1_codec s" and g1: "g1_module s" and sc: "scalars_commute s"
  shows
    "(2 \<le> length priKey \<longrightarrow>
        (\<exists>S. AggreSign s priKey msg t = Inr S \<and>
           exponentOf s S (sc_add s (priKey ! 0) (sc_mul s (priKey ! 1) (sc_set_bytes s msg))))) \<and>
     (decodesTo s S sigma1 sigma2 \<and> sigma2 = g1_mul s E sigma1 \<longrightarrow>
        (\<exists>S'. AggregatePSSign s y S msg' t' = Inr S' \<and>
           decodesTo s S' (g1_mul s t' sigma1)
             (g1_mul s t' (g1_add s (g1_mul s (sc_mul s y (sc_set_bytes s msg')) sigma1) sigma2)) \<and>
           exponentOf s S' (sc_add s E (sc_mul s y (sc_set_bytes s msg'))))) \<and>
     (2 \<le> length priKey \<longrightarrow>
        (\<exists>S0 Sn. AggreSign s priKey msg t = Inr S0 \<and> aggregateChain s S0 links = Inr Sn \<and>
           exponentOf s Sn
             (chainExponent s
                (sc_add s (priKey ! 0) (sc_mul s (priKey ! 1) (sc_set_bytes s msg))) links)))"
proof (intro conjI impI)
  assume len: "2 \<le> length priKey"
  from AggreSign_exponent [OF codec g1 len, of msg t]
  show init: "\<exists>S. AggreSign s priKey msg t = Inr S \<and>
           exponentOf s S (sc_add s (priKey ! 0) (sc_mul s (priKey ! 1) (sc_set_bytes s msg)))"
    by (auto simp: exponentOf_decodesTo)
  then obtain S0 where S0: "AggreSign s priKey msg t = Inr S0"
    "exponentOf s S0 (sc_add s (priKey ! 0) (sc_mul s (priKey ! 1) (sc_set_bytes s msg)))"
    by blast
  from aggregateChain_exponent [OF codec g1 sc S0(2), of links] S0(1)
  show "\<exists>S0 Sn. AggreSign s priKey msg t = Inr S0 \<and> aggregateChain s S0 links = Inr Sn \<and>
           exponentOf s Sn
             (chainExponent s
                (sc_add s (priKey ! 0) (sc_mul s (priKey ! 1) (sc_set_bytes s msg))) links)"
    by blast
next
  assume a: "decodesTo s S sigma1 sigma2 \<and> sigma2 = g1_mul s E sigma1"
  then have dec: "decodesTo s S sigma1 sigma2" and rel: "sigma2 = g1_mul s E sigma1" by blast+
  from AggregatePSSign_step [OF codec dec, of y msg' t'] obtain S' where
    S': "AggregatePSSign s y S msg' t' = Inr S'"
    "decodesTo s S' (g1_mul s t' sigma1)
       (g1_mul s t' (g1_add s (g1_mul s (sc_mul s y (sc_set_bytes s msg')) sigma1) sigma2))"
    by blast
  from S'(2) rel extend_algebra [OF sc g1]
  have "exponentOf s S' (sc_add s E (sc_mul s y (sc_set_bytes s msg')))"
    by (auto simp: exponentOf_decodesTo)
  with S' show "\<exists>S'. AggregatePSSign s y S msg' t' = Inr S' \<and>
           decodesTo s S' (g1_mul s t' sigma1)
             (g1_mul s t' (g1_add s (g1_mul s (sc_mul s y (sc_set_bytes s msg')) sigma1) sigma2)) \<and>
           exponentOf s S' (sc_add s E (sc_mul s y (sc_set_bytes s msg')))"
    by blast
qed


theorem aggregation_chain_invariant_witness:
  "(\<exists>S. AggreSign Z_suite [2, 1, 3, 4] [1] 1 = Inr S \<and>
        exponentOf Z_suite S
          (sc_add Z_suite ([2, 1, 3, 4] ! 0)
             (sc_mul Z_suite ([2, 1, 3, 4] ! 1) (sc_set_bytes Z_suite [1])))) \<and>
   (\<exists>S'. AggregatePSSign Z_suite 3 [[0, 0], [0, 0, 0, 0]] [1] 1 = Inr S' \<and>
        decodesTo Z_suite S' (g1_mul Z_suite 1 1)
          (g1_mul Z_suite 1
             (g1_add Z_suite (g1_mul Z_suite (sc_mul Z_suite 3 (sc_set_bytes Z_suite [1])) 1) 3)) \<and>
        exponentOf Z_suite S' (sc_add Z_suite 3 (sc_mul Z_suite 3 (sc_set_bytes Z_suite [1])))) \<and>
   (\<exists>S0 Sn. AggreSign Z_suite [2, 1, 3, 4] [1] 1 = Inr S0 \<and>
        aggregateChain Z_suite S0 [(3, [1], 1)] = Inr Sn \<and>
        exponentOf Z_suite Sn
          (chainExponent Z_suite
             (sc_add Z_suite ([2, 1, 3, 4] ! 0)
                (sc_mul Z_suite ([2, 1, 3, 4] ! 1) (sc_set_bytes Z_suite [1])))
             [(3, [1], 1)]))"
proof -
  have len: "2 \<le> length [2, 1, 3, 4 :: int]" by simp
  have dec: "decodesTo Z_suite [[0, 0], [0, 0, 0, 0]] 1 3 \<and> 3 = g1_mul Z_suite 3 1"
    by (simp add: decodesTo_def Z_suite_def Z_unmarshal_def)
  from aggregation_chain_invariant [OF Z_suite_laws(9) Z_suite_laws(2) Z_suite_laws(1),
      where priKey = "[2, 1, 3, 4]" and msg = "[1]" and t = 1 and S = "[[0, 0], [0, 0, 0, 0]]"
        and ?sigma1.0 = 1 and ?sigma2.0 = 3 and E = 3 and y = 3 and msg' = "[1]" and t' = 1
        and links = "[(3, [1], 1)]"] len dec
  show ?thesis by blast
qed

lemma exponent_verifies:
  assumes bl: "bilinear s" and ex: "exponentOf s S E"
    and loop: "batchVerifyLoop s pubKey 0 msgs (g2_new s) = Inr Y"
    and len: "0 < length pubKey"
    and X: "g2_add s Y (pubKey ! 0) = g2_mul s E (g2_base s)"
  shows "PSBatchVerify s pubKey msgs S = None"
proof -
  from ex obtain c1 c2 sigma1 where S: "S = [c1, c2]" "g1_unmarshal s c1 = Inr sigma1"
    "g1_unmarshal s c2 = Inr (g1_mul s E sigma1)"
    by (auto simp: exponentOf_def split: list.splits sum.splits)
  have "pair s (g1_mul s E sigma1) (g2_base s) = pair s sigma1 (g2_add s Y (pubKey ! 0))"
    using bl X by (intro pairing_moves_exponent) simp_all
  with S loop len show ?thesis by (simp add: PSBatchVerify_def)
qed

lemma g2_rearrange:
  assumes ab: "g2_abelian s" and ne: "g2_new_neutral s"
  shows "g2_add s (g2_add s (g2_add s (g2_add s (g2_new s) a) b) c) X0 =
         g2_add s (g2_add s (g2_add s X0 a) b) c"
proof -
  from ab have comm: "\<And>P Q. g2_add s P Q = g2_add s Q P"
    and assoc: "\<And>P Q R. g2_add s (g2_add s P Q) R = g2_add s P (g2_add s Q R)"
    unfolding g2_abelian_def by blast+
  have "g2_add s (g2_add s (g2_add s (g2_add s (g2_new s) a) b) c) X0 =
        g2_add s (g2_add s (g2_add s a b) c) X0"
    using ne by (simp add: g2_new_neutral_def)
  also have "\<dots> = g2_add s X0 (g2_add s (g2_add s a b) c)" by (rule comm)
  also have "\<dots> = g2_add s (g2_add s X0 (g2_add s a b)) c" by (simp only: assoc)
  also have "\<dots> = g2_add s (g2_add s (g2_add s X0 a) b) c" by (simp only: assoc)
  finally show ?thesis .
qed

text \<open>
  C3.  For every key pair with at least four slots and messages \<open>m1\<close>, \<open>m2\<close>, \<open>m3\<close>:
  AggreSign with the private key on \<open>m1\<close>, extended by AggregatePSSign with the scalar
  of slot 2 on \<open>m2\<close> and then with the scalar of slot 3 on \<open>m3\<close>, gives a signature
  that PSBatchVerify accepts for \<open>[m1, m2, m3]\<close>, whatever scalars the three steps draw.
\<close>

theorem aggregation_end_to_end:
  assumes ok: "suite_ok s" and kp: "keyPair s priKey pubKey" and len: "4 \<le> length priKey"
  shows "\<exists>A0 A1 A2.
           AggreSign s priKey m1 t1 = Inr A0 \<and>
           AggregatePSSign s (priKey ! 2) A0 m2 t2 = Inr A1 \<and>
           AggregatePSSign s (priKey ! 3) A1 m3 t3 = Inr A2 \<and>
           PSBatchVerify s pubKey [m1, m2, m3] A2 = None"
proof -
  from ok have laws: "scalars_commute s" "g1_module s" "g2_module s" "g2_abelian s"
    "g2_new_neutral s" "bilinear s" "g1_codec s"
    by (simp_all add: suite_ok_def)
  define E0 where "E0 = sc_add s (priKey ! 0) (sc_mul s (priKey ! 1) (sc_set_bytes s m1))"
  define E1 where "E1 = sc_add s E0 (sc_mul s (priKey ! 2) (sc_set_bytes s m2))"
  define E2 where "E2 = sc_add s E1 (sc_mul s (priKey ! 3) (sc_set_bytes s m3))"
  from len have len': "2 \<le> length priKey" "0 < length priKey" "1 < length priKey"
    "2 < length priKey" "3 < length priKey" by auto
  from AggreSign_exponent [OF laws(7) laws(2) len'(1), of m1 t1] obtain A0 where
    A0: "AggreSign s priKey m1 t1 = Inr A0" "exponentOf s A0 E0"
    by (auto simp: exponentOf_decodesTo E0_def)
  from AggregatePSSign_exponent [OF laws(7) laws(2) laws(1) A0(2), of "priKey ! 2" m2 t2]
  obtain A1 where A1: "AggregatePSSign s (priKey ! 2) A0 m2 t2 = Inr A1" "exponentOf s A1 E1"
    by (auto simp: E1_def)
  from AggregatePSSign_exponent [OF laws(7) laws(2) laws(1) A1(2), of "priKey ! 3" m3 t3]
  obtain A2 where A2: "AggregatePSSign s (priKey ! 3) A1 m3 t3 = Inr A2" "exponentOf s A2 E2"
    by (auto simp: E2_def)
  from kp len' have pk: "length pubKey = length priKey"
    "pubKey ! 0 = g2_mul s (priKey ! 0) (g2_base s)"
    "pubKey ! 1 = g2_mul s (priKey ! 1) (g2_base s)"
    "pubKey ! 2 = g2_mul s (priKey ! 2) (g2_base s)"
    "pubKey ! 3 = g2_mul s (priKey ! 3) (g2_base s)"
    by (simp_all add: keyPair_def)
  define a where "a = g2_mul s (sc_set_bytes s m1) (pubKey ! 1)"
  define b where "b = g2_mul s (sc_set_bytes s m2) (pubKey ! 2)"
  define c where "c = g2_mul s (sc_set_bytes s m3) (pubKey ! 3)"
  from len' pk(1) have loop: "batchVerifyLoop s pubKey 0 [m1, m2, m3] (g2_new s) =
      Inr (g2_add s (g2_add s (g2_add s (g2_new s) a) b) c)"
    by (simp add: a_def b_def c_def Let_def eval_nat_numeral)
  have "g2_mul s E2 (g2_base s) = g2_add s (g2_add s (g2_add s (pubKey ! 0) a) b) c"
    using laws(3) pk g2_weighted_key [OF laws(1) laws(3)]
    by (simp add: E2_def E1_def E0_def a_def b_def c_def g2_module_def)
  with g2_rearrange [OF laws(4) laws(5), of a b c "pubKey ! 0"]
  have X: "g2_add s (g2_add s (g2_add s (g2_add s (g2_new s) a) b) c) (pubKey ! 0) =
           g2_mul s E2 (g2_base s)" by simp
  from len' pk have "0 < length pubKey" by simp
  from exponent_verifies [OF laws(6) A2(2) loop this X] A0(1) A1(1) A2(1)
  show ?thesis by blast
qed

theorem aggregation_end_to_end_witness:
  "\<exists>A0 A1 A2.
     AggreSign Z_suite [2, 1, 3, 4] [1] 1 = Inr A0 \<and>
     AggregatePSSign Z_suite ([2, 1, 3, 4] ! 2) A0 [2] 1 = Inr A1 \<and>
     AggregatePSSign Z_suite ([2, 1, 3, 4] ! 3) A1 [1] 1 = Inr A2 \<and>
     PSBatchVerify Z_suite [2, 1, 3, 4] [[1], [2], [1]] A2 = None"
proof -
  have kp: "keyPair Z_suite [2, 1, 3, 4] [2, 1, 3, 4]" by (simp add: keyPair_def Z_suite_def)
  have len: "4 \<le> length [2, 1, 3, 4 :: int]" by simp
  show ?thesis by (rule aggregation_end_to_end [OF Z_suite_ok kp len])
qed

subsection \<open>The decision of the verifiers\<close>

lemma g2_new_right:
  assumes "g2_abelian s" "g2_new_neutral s"
  shows "g2_add s P (g2_new s) = P"
proof -
  from assms(1) have "g2_add s P (g2_new s) = g2_add s (g2_new s) P"
    unfolding g2_abelian_def by blast
  with assms(2) show ?thesis by (simp add: g2_new_neutral_def)
qed

lemma batchVerifyLoop_weighted_sum:
  assumes ab: "g2_abelian s" and ne: "g2_new_neutral s"
  shows "i + length msgs < length pubKey \<Longrightarrow>
         batchVerifyLoop s pubKey i msgs Y =
           Inr (g2_add s Y (weighted_sum s (drop (i + 1) pubKey) msgs))"
proof (induction msgs arbitrary: i Y)
  case Nil
  then show ?case by (simp add: g2_new_right [OF ab ne])
next
  case (Cons msg msgs)
  from Cons.prems have i: "i + 1 < length pubKey" "(i + 1) + length msgs < length pubKey"
    by simp_all
  from i(1) have d: "drop (i + 1) pubKey = pubKey ! (i + 1) # drop (i + 1 + 1) pubKey"
    by (simp add: Cons_nth_drop_Suc)
  from ab have assoc: "\<And>P Q R. g2_add s (g2_add s P Q) R = g2_add s P (g2_add s Q R)"
    unfolding g2_abelian_def by blast
  from Cons.IH [OF i(2)] i(1) show ?case
    by (simp only: batchVerifyLoop.simps d weighted_sum.simps Let_def assoc if_False not_not simp_thms)
qed

lemma batch_point:
  assumes ab: "g2_abelian s" and ne: "g2_new_neutral s" and len: "length msgs + 1 \<le> length pubKey"
  shows "\<exists>Y. batchVerifyLoop s pubKey 0 msgs (g2_new s) = Inr Y \<and>
             g2_add s Y (pubKey ! 0) = equation_point s pubKey msgs"
proof -
  from len have "0 + length msgs < length pubKey" by simp
  from batchVerifyLoop_weighted_sum [OF ab ne this, of "g2_new s"] ne
  have loop: "batchVerifyLoop s pubKey 0 msgs (g2_new s) = Inr (weighted_sum s (tl pubKey) msgs)"
    by (simp add: g2_new_neutral_def drop_Suc)
  from ab have "g2_add s (weighted_sum s (tl pubKey) msgs) (pubKey ! 0) =
                equation_point s pubKey msgs"
    unfolding g2_abelian_def equation_point_def by blast
  with loop show ?thesis by blast
qed

lemma single_point:
  assumes ab: "g2_abelian s" and ne: "g2_new_neutral s" and len: "2 \<le> length pubKey"
  shows "g2_add s (g2_mul s (sc_set_bytes s msg) (pubKey ! 1)) (pubKey ! 0) =
         equation_point s pubKey [msg]"
proof -
  from len obtain X Y rest where pk: "pubKey = X # Y # rest"
    by (cases pubKey; cases "tl pubKey") auto
  from ab have "g2_add s (g2_mul s (sc_set_bytes s msg) Y) X =
                g2_add s X (g2_mul s (sc_set_bytes s msg) Y)"
    unfolding g2_abelian_def by blast
  with pk show ?thesis by (simp add: equation_point_def g2_new_right [OF ab ne])
qed

text \<open>
  C5.  For a public key with a slot for every message and a signature of two components:
  when both components decode, Verify and PSBatchVerify return no error iff
  \<open>e(sigma1, X \<cdot> \<Prod> Y\<^sub>i^m\<^sub>i) = e(sigma2, g2)\<close>, and return InvalidSignature exactly when
  the two pairing values differ; when the first component does not decode, or the first
  does and the second does not, the error of the decoding is returned.
\<close>

theorem verification_decision:
  assumes ab: "g2_abelian s" and ne: "g2_new_neutral s" and lenS: "2 \<le> length S"
  shows
    "(2 \<le> length pubKey \<longrightarrow>
        (g1_unmarshal s (S ! 0) = Inr sigma1 \<longrightarrow> g1_unmarshal s (S ! 1) = Inr sigma2 \<longrightarrow>
           (Verify s pubKey msg S = None \<longleftrightarrow>
              pair s sigma1 (equation_point s pubKey [msg]) = pair s sigma2 (g2_base s)) \<and>
           (Verify s pubKey msg S = Some InvalidSignature \<longleftrightarrow>
              pair s sigma1 (equation_point s pubKey [msg]) \<noteq> pair s sigma2 (g2_base s))) \<and>
        (g1_unmarshal s (S ! 0) = Inl err \<longrightarrow> Verify s pubKey msg S = Some (SuiteError err)) \<and>
        (g1_unmarshal s (S ! 0) = Inr sigma1 \<longrightarrow> g1_unmarshal s (S ! 1) = Inl err \<longrightarrow>
           Verify s pubKey msg S = Some (SuiteError err))) \<and>
     (length msgs + 1 \<le> length pubKey \<longrightarrow>
        (g1_unmarshal s (S ! 0) = Inr sigma1 \<longrightarrow> g1_unmarshal s (S ! 1) = Inr sigma2 \<longrightarrow>
           (PSBatchVerify s pubKey msgs S = None \<longleftrightarrow>
              pair s sigma1 (equation_point s pubKey msgs) = pair s sigma2 (g2_base s)) \<and>
           (PSBatchVerify s pubKey msgs S = Some InvalidSignature \<longleftrightarrow>
              pair s sigma1 (equation_point s pubKey msgs) \<noteq> pair s sigma2 (g2_base s))) \<and>
        (g1_unmarshal s (S ! 0) = Inl err \<longrightarrow> PSBatchVerify s pubKey msgs S = Some (SuiteError err)) \<and>
        (g1_unmarshal s (S ! 0) = Inr sigma1 \<longrightarrow> g1_unmarshal s (S ! 1) = Inl err \<longrightarrow>
           PSBatchVerify s pubKey msgs S = Some (SuiteError err)))"
proof (intro conjI impI)
  from lenS have S: "0 < length S" "1 < length S" by auto
  {
    assume len: "2 \<le> length pubKey"
    then have l1: "1 < length pubKey" by auto
    note X = single_point [OF ab ne len, of msg]
    {
      assume "g1_unmarshal s (S ! 0) = Inr sigma1" "g1_unmarshal s (S ! 1) = Inr sigma2"
      with S l1 X
      show "Verify s pubKey msg S = None \<longleftrightarrow>
              pair s sigma1 (equation_point s pubKey [msg]) = pair s sigma2 (g2_base s)"
        and "Verify s pubKey msg S = Some InvalidSignature \<longleftrightarrow>
              pair s sigma1 (equation_point s pubKey [msg]) \<noteq> pair s sigma2 (g2_base s)"
        by (simp_all add: Verify_def)
    }
    {
      assume "g1_unmarshal s (S ! 0) = Inl err"
      with S l1 show "Verify s pubKey msg S = Some (SuiteError err)"
        by (simp add: Verify_def)
    }
    {
      assume "g1_unmarshal s (S ! 0) = Inr sigma1" "g1_unmarshal s (S ! 1) = Inl err"
      with S l1 show "Verify s pubKey msg S = Some (SuiteError err)"
        by (simp add: Verify_def)
    }
  }
  {
    assume len: "length msgs + 1 \<le> length pubKey"
    then have l0: "0 < length pubKey" by auto
    from batch_point [OF ab ne len] obtain Y where
      Y: "batchVerifyLoop s pubKey 0 msgs (g2_new s) = Inr Y"
      "g2_add s Y (pubKey ! 0) = equation_point s pubKey msgs" by blast
    {
      assume "g1_unmarshal s (S ! 0) = Inr sigma1" "g1_unmarshal s (S ! 1) = Inr sigma2"
      with S l0 Y
      show "PSBatchVerify s pubKey msgs S = None \<longleftrightarrow>
              pair s sigma1 (equation_point s pubKey msgs) = pair s sigma2 (g2_base s)"
        and "PSBatchVerify s pubKey msgs S = Some InvalidSignature \<longleftrightarrow>
              pair s sigma1 (equation_point s pubKey msgs) \<noteq> pair s sigma2 (g2_base s)"
        by (simp_all add: PSBatchVerify_def)
    }
    {
      assume "g1_unmarshal s (S ! 0) = Inl err"
      with S l0 Y show "PSBatchVerify s pubKey msgs S = Some (SuiteError err)"
        by (simp add: PSBatchVerify_def)
    }
    {
      assume "g1_unmarshal s (S ! 0) = Inr sigma1" "g1_unmarshal s (S ! 1) = Inl err"
      with S l0 Y show "PSBatchVerify s pubKey msgs S = Some (SuiteError err)"
        by (simp add: PSBatchVerify_def)
    }
  }
qed

theorem verification_decision_witness:
  "Verify Z_suite [2, 1] [1] [[0, 0], [0, 0, 0, 0]] = None \<and>
   PSBatchVerify Z_suite [2, 1] [[1]] [[0, 0], [0, 0, 0, 0]] = None \<and>
   Verify Z_suite [2, 1] [1] [[0, 0], [0, 0, 0]] = Some InvalidSignature \<and>
   PSBatchVerify Z_suite [2, 1] [[1]] [[0, 0], [0, 0, 0]] = Some InvalidSignature \<and>
   Verify Z_suite [2, 1] [1] [[2], [0]] = Some (SuiteError ''malformed'') \<and>
   PSBatchVerify Z_suite [2, 1] [[1]] [[2], [0]] = Some (SuiteError ''malformed'') \<and>
   Verify Z_suite [2, 1] [1] [[0], [2]] = Some (SuiteError ''malformed'') \<and>
   PSBatchVerify Z_suite [2, 1] [[1]] [[0], [2]] = Some (SuiteError ''malformed'')"
proof -
  have dec: "g1_unmarshal Z_suite [0, 0] = Inr 1" "g1_unmarshal Z_suite [0, 0, 0, 0] = Inr 3"
    "g1_unmarshal Z_suite [0, 0, 0] = Inr 2" "g1_unmarshal Z_suite [0] = Inr 0"
    "g1_unmarshal Z_suite [2] = Inl ''malformed''"
    by (simp_all add: Z_suite_def Z_unmarshal_def)
  have pt: "equation_point Z_suite [2, 1] [[1]] = 3"
    by (simp add: equation_point_def Z_suite_def Z_set_bytes_def)
  have pr: "pair Z_suite = (*)" "g2_base Z_suite = 1"
    by (simp_all add: Z_suite_def)
  note vd = verification_decision [OF Z_suite_laws(4) Z_suite_laws(3),
      where pubKey = "[2, 1]" and msg = "[1]" and msgs = "[[1]]"]
  from vd [of "[[0, 0], [0, 0, 0, 0]]" 1 3 "[]"]
    vd [of "[[0, 0], [0, 0, 0]]" 1 2 "[]"]
    vd [of "[[2], [0]]" 0 0 "''malformed''"]
    vd [of "[[0], [2]]" 0 0 "''malformed''"]
  show ?thesis by (simp add: dec pt pr)
qed

subsection \<open>Tampered signatures\<close>

lemma bit_mask_nonzero: "k < 8 \<Longrightarrow> push_bit k (1 :: 8 word) \<noteq> 0"
  by (simp add: push_bit_eq_mult)

lemma flipBit_changes:
  assumes "j < length b" "k < 8"
  shows "flipBit b j k \<noteq> b"
proof
  assume "flipBit b j k = b"
  then have "flipBit b j k ! j = b ! j" by simp
  with assms(1) have "xor (b ! j) (push_bit k 1) = b ! j" by (simp add: flipBit_def)
  then have "xor (b ! j) (xor (b ! j) (push_bit k 1)) = xor (b ! j) (b ! j)" by (simp only:)
  then have "push_bit k (1 :: 8 word) = 0" by simp
  with bit_mask_nonzero [OF assms(2)] show False by simp
qed

lemma Z_suite_flip_separated: "g1_flip_separated Z_suite"
  unfolding g1_flip_separated_def
proof (intro allI impI)
  fix P b j and k :: nat
  assume m: "g1_marshal Z_suite P = Inr b" and j: "j < length b" and k: "k < 8"
  show "g1_unmarshal Z_suite (flipBit b j k) \<noteq> Inr P"
  proof
    assume "g1_unmarshal Z_suite (flipBit b j k) = Inr P"
    then have "Z_unmarshal (flipBit b j k) = Inr P" by (simp add: Z_suite_def)
    then have "Z_marshal P = Inr (flipBit b j k)" by (rule Z_canonical)
    moreover from m have "Z_marshal P = Inr b" by (simp add: Z_suite_def)
    ultimately have "flipBit b j k = b" by simp
    with flipBit_changes [OF j k] show False by simp
  qed
qed


lemma key_point_exponent:
  assumes sc: "scalars_commute s" and g2: "g2_module s" and ab: "g2_abelian s"
    and kp: "keyPair s priKey pubKey" and len: "2 \<le> length priKey"
  shows "g2_add s (g2_mul s m (pubKey ! 1)) (pubKey ! 0) =
         g2_mul s (sc_add s (priKey ! 0) (sc_mul s (priKey ! 1) m)) (g2_base s)"
proof -
  from len have len': "0 < length priKey" "1 < length priKey" by auto
  with kp have pk: "pubKey ! 0 = g2_mul s (priKey ! 0) (g2_base s)"
    "pubKey ! 1 = g2_mul s (priKey ! 1) (g2_base s)"
    by (simp_all add: keyPair_def)
  have "g2_mul s (sc_add s (priKey ! 0) (sc_mul s (priKey ! 1) m)) (g2_base s) =
        g2_add s (g2_mul s (priKey ! 0) (g2_base s)) (g2_mul s (sc_mul s (priKey ! 1) m) (g2_base s))"
    using g2 by (simp add: g2_module_def)
  also have "\<dots> = g2_add s (pubKey ! 0) (g2_mul s m (pubKey ! 1))"
    using pk g2_weighted_key [OF sc g2] by simp
  also have "\<dots> = g2_add s (g2_mul s m (pubKey ! 1)) (pubKey ! 0)"
    using ab by (simp add: g2_abelian_def)
  finally show ?thesis by simp
qed

lemma Sign_components:
  assumes codec: "g1_codec s" and sig: "Sign s priKey msg h = Inr S"
  shows "\<exists>b1 b2. S = [b1, b2] \<and> g1_marshal s h = Inr b1 \<and> g1_unmarshal s b1 = Inr h \<and>
           g1_marshal s (g1_mul s (sc_add s (priKey ! 0) (sc_mul s (priKey ! 1) (sc_set_bytes s msg))) h)
             = Inr b2 \<and>
           g1_unmarshal s b2 =
             Inr (g1_mul s (sc_add s (priKey ! 0) (sc_mul s (priKey ! 1) (sc_set_bytes s msg))) h)"
proof -
  define hX where
    "hX = g1_mul s (sc_add s (priKey ! 0) (sc_mul s (priKey ! 1) (sc_set_bytes s msg))) h"
  from codec obtain b1 where b1: "g1_marshal s h = Inr b1" "g1_unmarshal s b1 = Inr h"
    unfolding g1_codec_def by blast
  from codec obtain b2 where b2: "g1_marshal s hX = Inr b2" "g1_unmarshal s b2 = Inr hX"
    unfolding g1_codec_def by blast
  from sig b1 b2 have "S = [b1, b2]"
    by (auto simp: Sign_def hX_def Let_def split: if_splits)
  with b1 b2 show ?thesis unfolding hX_def by blast
qed

text \<open>
  C7, as amended.  Over a suite that satisfies the laws, with a non-degenerate pairing and
  a G1 encoding in which one inverted bit never decodes to the point that was encoded:
  inverting any single bit of either component of a signature produced by Sign makes
  Verify fail, with the error of the decoding when the tampered
  component does not decode, and with InvalidSignature when it does.  For the first
  component this needs that the point \<open>X \<cdot> Y^m\<close> of the key and message is not the
  neutral element.
\<close>

theorem tampered_signature_rejected:
  assumes ok: "suite_ok s" and nd: "nondegenerate s" and sep: "g1_flip_separated s"
    and kp: "keyPair s priKey pubKey" and len: "2 \<le> length priKey"
    and sig: "Sign s priKey msg h = Inr S"
    and c: "c < 2" and j: "j < length (S ! c)" and k: "k < 8"
    and nz: "c = 0 \<longrightarrow>
             g2_add s (g2_mul s (sc_set_bytes s msg) (pubKey ! 1)) (pubKey ! 0) \<noteq> g2_new s"
  shows "Verify s pubKey msg (S[c := flipBit (S ! c) j k]) =
           (case g1_unmarshal s (flipBit (S ! c) j k) of
              Inl err \<Rightarrow> Some (SuiteError err)
            | Inr P \<Rightarrow> Some InvalidSignature)"
proof -
  define m where "m = sc_set_bytes s msg"
  define E where "E = sc_add s (priKey ! 0) (sc_mul s (priKey ! 1) m)"
  define X where "X = g2_add s (g2_mul s m (pubKey ! 1)) (pubKey ! 0)"
  from ok have laws: "scalars_commute s" "g2_module s" "g2_abelian s" "bilinear s" "g1_codec s"
    by (simp_all add: suite_ok_def)
  from nd have inj: "\<And>P P' Q. Q \<noteq> g2_new s \<Longrightarrow> pair s P Q = pair s P' Q \<Longrightarrow> P = P'"
    and base: "g2_base s \<noteq> g2_new s"
    unfolding nondegenerate_def by blast+
  from Sign_components [OF laws(5) sig] obtain b1 b2 where
    S: "S = [b1, b2]" and b1: "g1_marshal s h = Inr b1" "g1_unmarshal s b1 = Inr h"
    and b2: "g1_marshal s (g1_mul s E h) = Inr b2" "g1_unmarshal s b2 = Inr (g1_mul s E h)"
    unfolding E_def m_def by blast
  from kp len have lp: "1 < length pubKey" by (auto simp: keyPair_def)
  have XE: "X = g2_mul s E (g2_base s)"
    unfolding X_def E_def by (rule key_point_exponent [OF laws(1) laws(2) laws(3) kp len])
  have valid: "pair s (g1_mul s E h) (g2_base s) = pair s h X"
    using laws(4) XE by (rule pairing_moves_exponent)
  from c consider "c = 0" | "c = 1" by linarith
  then show ?thesis
  proof cases
    case 1
    define b' where "b' = flipBit b1 j k"
    from 1 S j have jb: "j < length b1" by simp
    from 1 nz have Xnz: "X \<noteq> g2_new s" by (simp add: X_def m_def)
    have "Verify s pubKey msg [b', b2] =
            (case g1_unmarshal s b' of Inl err \<Rightarrow> Some (SuiteError err)
             | Inr P \<Rightarrow> Some InvalidSignature)"
    proof (cases "g1_unmarshal s b'")
      case (Inl err)
      with lp show ?thesis by (simp add: Verify_def)
    next
      case (Inr P)
      from sep b1(1) jb k have "g1_unmarshal s b' \<noteq> Inr h"
        unfolding g1_flip_separated_def b'_def by blast
      with Inr have "P \<noteq> h" by simp
      with inj [OF Xnz, of P h] have "pair s P X \<noteq> pair s h X" by blast
      with valid have "pair s P X \<noteq> pair s (g1_mul s E h) (g2_base s)" by simp
      with lp Inr b2 show ?thesis by (simp add: Verify_def X_def m_def)
    qed
    with 1 S show ?thesis by (simp add: b'_def)
  next
    case 2
    define b' where "b' = flipBit b2 j k"
    from 2 S j have jb: "j < length b2" by simp
    have "Verify s pubKey msg [b1, b'] =
            (case g1_unmarshal s b' of Inl err \<Rightarrow> Some (SuiteError err)
             | Inr P \<Rightarrow> Some InvalidSignature)"
    proof (cases "g1_unmarshal s b'")
      case (Inl err)
      with lp b1 show ?thesis by (simp add: Verify_def)
    next
      case (Inr P)
      from sep b2(1) jb k have "g1_unmarshal s b' \<noteq> Inr (g1_mul s E h)"
        unfolding g1_flip_separated_def b'_def by blast
      with Inr have "P \<noteq> g1_mul s E h" by simp
      with inj [OF base, of P "g1_mul s E h"]
      have "pair s P (g2_base s) \<noteq> pair s (g1_mul s E h) (g2_base s)" by blast
      with valid have "pair s h X \<noteq> pair s P (g2_base s)" by simp
      with lp Inr b1 show ?thesis by (simp add: Verify_def X_def m_def)
    qed
    with 2 S show ?thesis by (simp add: b'_def)
  qed
qed

lemma Z_Sign_example: "Sign Z_suite [2, 1] [1] 1 = Inr [[0, 0], [0, 0, 0, 0]]"
  by (simp add: Sign_def Z_suite_def Z_marshal_def Z_set_bytes_def numeral_3_eq_3)

lemma Z_flip_examples: "flipBit [0, 0] (Suc 0) 0 = [0, 1]" "flipBit [0, 0] 0 0 = [1, 0]"
  by (simp_all add: flipBit_def)

theorem tampered_signature_rejected_witness:
  "Verify Z_suite [2, 1] [1]
     ([[0, 0], [0, 0, 0, 0]][0 := flipBit ([[0, 0], [0, 0, 0, 0]] ! 0) 1 0]) =
     Some (SuiteError ''malformed'') \<and>
   Verify Z_suite [2, 1] [1]
     ([[0, 0], [0, 0, 0, 0]][0 := flipBit ([[0, 0], [0, 0, 0, 0]] ! 0) 0 0]) =
     Some InvalidSignature"
proof -
  have kp: "keyPair Z_suite [2, 1] [2, 1]" by (simp add: keyPair_def Z_suite_def)
  have len: "2 \<le> length [2, 1 :: int]" by simp
  have nz: "(0::nat) = 0 \<longrightarrow>
      g2_add Z_suite (g2_mul Z_suite (sc_set_bytes Z_suite [1]) ([2, 1] ! 1)) ([2, 1] ! 0) \<noteq>
      g2_new Z_suite"
    by (simp add: Z_suite_def Z_set_bytes_def)
  have dec: "g1_unmarshal Z_suite [0, 1] = Inl ''malformed''"
    "g1_unmarshal Z_suite [1, 0] = Inr (- 1)"
    by (simp_all add: Z_suite_def Z_unmarshal_def)
  note tr = tampered_signature_rejected [OF Z_suite_ok Z_suite_laws(7) Z_suite_flip_separated kp len
      Z_Sign_example, of 0 _ _, OF _ _ _ nz]
  from tr [of 1 0] tr [of 0 0] show ?thesis
    by (simp add: Z_flip_examples dec)
qed

text \<open>
  C7, as stated, fails: over the integer suite, inverting bit 0 of byte 1 of the first
  component of a signature produced by Sign gives bytes that do not decode, and Verify
  returns the error of the decoding, not InvalidSignature.
\<close>

theorem tamper_decoding_error_counterexample:
  "Sign Z_suite [2, 1] [1] 1 = Inr [[0, 0], [0, 0, 0, 0]] \<and>
   Verify Z_suite [2, 1] [1] ([[0, 0], [0, 0, 0, 0]][0 := flipBit [0, 0] 1 0]) =
     Some (SuiteError ''malformed'') \<and>
   Verify Z_suite [2, 1] [1] ([[0, 0], [0, 0, 0, 0]][0 := flipBit [0, 0] 1 0]) \<noteq>
     Some InvalidSignature"
proof -
  have "Verify Z_suite [2, 1] [1] [[0, 1], [0, 0, 0, 0]] = Some (SuiteError ''malformed'')"
    by (simp add: Verify_def Z_suite_def Z_unmarshal_def)
  then show ?thesis by (simp add: Z_Sign_example Z_flip_examples)
qed

end
